theory Spec2Isabelle
  imports Complex_Main "HOL-Library.Sublist" "HOL-Library.Multiset"
begin

section \<open>JavaScript values used by the frontend\<close>

text \<open>
  Instants are time values in milliseconds since the epoch, as \<^verbatim>\<open>new Date(s).getTime()\<close>
  yields them. A JavaScript number as \<^verbatim>\<open>parseFloat\<close> returns it is a finite number,
  \<^verbatim>\<open>NaN\<close> or an infinity; the finite ones are embedded in the reals (only comparisons
  with zero and equality are used on them).
\<close>

type_synonym instant = int

datatype js_number = Num real | NaN | PosInfinity | NegInfinity

text \<open>\<^verbatim>\<open>!x\<close> on a number: true for \<^verbatim>\<open>NaN\<close>, \<^verbatim>\<open>0\<close> and \<^verbatim>\<open>-0\<close>.\<close>

fun js_not :: "js_number \<Rightarrow> bool" where
  "js_not (Num r) = (r = 0)"
| "js_not NaN = True"
| "js_not PosInfinity = False"
| "js_not NegInfinity = False"

text \<open>\<^verbatim>\<open>x < 0\<close> on a number: false for \<^verbatim>\<open>NaN\<close>.\<close>

fun js_lt0 :: "js_number \<Rightarrow> bool" where
  "js_lt0 (Num r) = (r < 0)"
| "js_lt0 NaN = False"
| "js_lt0 PosInfinity = False"
| "js_lt0 NegInfinity = True"

text \<open>
  \<^verbatim>\<open>a || d\<close> on an optional string: \<^verbatim>\<open>undefined\<close>, \<^verbatim>\<open>null\<close> (both \<open>None\<close>) and the
  empty string are falsy.
\<close>

definition js_or :: "string option \<Rightarrow> string \<Rightarrow> string" where
  "js_or a d = (case a of None \<Rightarrow> d | Some s \<Rightarrow> if s = [] then d else s)"

text \<open>Truthiness of an optional string, as in \<^verbatim>\<open>!this._selectedMeter\<close>.\<close>

definition js_truthy :: "string option \<Rightarrow> bool" where
  "js_truthy a = (case a of None \<Rightarrow> False | Some s \<Rightarrow> s \<noteq> [])"

datatype js_error = Error string

fun message :: "js_error \<Rightarrow> string" where
  "message (Error m) = m"

section \<open>Objects exchanged with Home Assistant\<close>

text \<open>
  A reading object as the \<^verbatim>\<open>get_readings\<close> service returns it and the panel reads it.
  \<open>timestamp\<close>, \<open>period_start\<close> and \<open>period_end\<close> hold the time value of
  \<^verbatim>\<open>new Date(reading.timestamp)\<close> and so on: \<open>None\<close> when the property is missing or
  does not parse (Invalid Date). \<open>meter_id\<close> is whatever the service sent until
  \<^verbatim>\<open>getReadings\<close> overwrites it.
\<close>

record reading =
  reading_id :: nat
  meter_id :: string
  timestamp :: "instant option"
  reading_value :: real
  reading_notes :: "string option"
  period_start :: "instant option"
  period_end :: "instant option"

record registry_entry =
  reg_entity_id :: string
  platform :: string

record attributes =
  friendly_name :: "string option"
  unit_of_measurement :: "string option"
  attr_device_class :: "string option"

record state_object =
  st_entity_id :: string
  st_attributes :: attributes
  st_state :: string

record meter =
  entity_id :: string
  name :: string
  state :: string
  unit :: string
  device_class :: string

text \<open>
  The response of the \<^verbatim>\<open>get_readings\<close> call. The three places where \<^verbatim>\<open>getReadings\<close>
  looks for the list: \<^verbatim>\<open>result.response.readings\<close>, \<^verbatim>\<open>result.readings\<close> (each
  \<open>None\<close> when missing or falsy; an empty array is truthy) and \<^verbatim>\<open>result\<close> itself when
  it is an array.
\<close>

datatype ws_result = WsResult
  (response_readings: "reading list option")
  (result_readings: "reading list option")
  (result_array: "reading list option")

text \<open>
  The calls a frontend function sends through \<^verbatim>\<open>hass.callService("metermate", ...)\<close>,
  each with its payload.
\<close>

datatype service_call =
    add_reading string js_number "instant option" "string option"
  | add_meter_reading string js_number instant string
  | add_consumption_period string js_number instant instant string
  | rebuild_history string

text \<open>
  The \<^verbatim>\<open>hass\<close> object, as far as the frontend uses it: the state table, and the outcome
  of each asynchronous call (\<open>Inl\<close>: the promise rejects, the \<^verbatim>\<open>await\<close> throws).
\<close>

record hass =
  states :: "string \<rightharpoonup> state_object"
  entity_registry_list :: "js_error + registry_entry list"
  get_readings :: "string \<Rightarrow> js_error + ws_result"
  callService :: "service_call \<Rightarrow> js_error option"

section \<open>api.js\<close>

definition make_meter :: "state_object \<Rightarrow> meter" where
  "make_meter entity =
     \<lparr> entity_id = st_entity_id entity,
       name = js_or (friendly_name (st_attributes entity)) (st_entity_id entity),
       state = st_state entity,
       unit = js_or (unit_of_measurement (st_attributes entity)) ''kWh'',
       device_class = js_or (attr_device_class (st_attributes entity)) ''energy'' \<rparr>"

text \<open>\<^verbatim>\<open>entity && entity.entity_id.startsWith("sensor.")\<close>\<close>

definition is_sensor :: "state_object option \<Rightarrow> bool" where
  "is_sensor entity =
     (case entity of None \<Rightarrow> False | Some s \<Rightarrow> prefix ''sensor.'' (st_entity_id s))"

text \<open>
  \<^verbatim>\<open>getMeters\<close>: \<open>None\<close> is a missing \<^verbatim>\<open>hass\<close>. An error of the registry call is
  thrown again.
\<close>

definition getMeters :: "hass option \<Rightarrow> js_error + meter list" where
  "getMeters h =
     (case h of
        None \<Rightarrow> Inr []
      | Some hs \<Rightarrow>
          (case entity_registry_list hs of
             Inl error \<Rightarrow> Inl error
           | Inr entityRegistry \<Rightarrow>
               (let meterMateEntityIds =
                      map reg_entity_id
                        (filter (\<lambda>entity. platform entity = ''metermate'') entityRegistry)
                in if length meterMateEntityIds = 0 then Inr []
                   else
                     (let meterMateEntities =
                            filter is_sensor (map (states hs) meterMateEntityIds)
                      in Inr (map (\<lambda>entity. make_meter (the entity)) meterMateEntities)))))"

text \<open>The list \<^verbatim>\<open>getReadings\<close> extracts from a response, in the order of its tests.\<close>

definition extract_readings :: "ws_result \<Rightarrow> reading list" where
  "extract_readings result =
     (case response_readings result of
        Some rs \<Rightarrow> rs
      | None \<Rightarrow>
          (case result_readings result of
             Some rs \<Rightarrow> rs
           | None \<Rightarrow>
               (case result_array result of
                  Some rs \<Rightarrow> rs
                | None \<Rightarrow> [])))"

text \<open>
  The loop of \<^verbatim>\<open>getReadings\<close> over the meters, \<open>allReadings\<close> being the accumulator.
  A call that throws is caught inside the loop (a warning is logged) and the loop
  goes on.
\<close>

fun getReadings_loop ::
  "(string \<Rightarrow> js_error + ws_result) \<Rightarrow> meter list \<Rightarrow> reading list \<Rightarrow> reading list" where
  "getReadings_loop call [] allReadings = allReadings"
| "getReadings_loop call (meter # meters) allReadings =
     (case call (entity_id meter) of
        Inl error \<Rightarrow> getReadings_loop call meters allReadings
      | Inr result \<Rightarrow>
          getReadings_loop call meters
            (allReadings @
               map (\<lambda>reading. reading\<lparr>meter_id := entity_id meter\<rparr>)
                 (extract_readings result)))"

text \<open>\<^verbatim>\<open>this.hass.callWS\<close> on a missing \<^verbatim>\<open>hass\<close> is a TypeError.\<close>

definition callWS_get_readings :: "hass option \<Rightarrow> string \<Rightarrow> js_error + ws_result" where
  "callWS_get_readings h =
     (case h of
        None \<Rightarrow> (\<lambda>_. Inl (Error ''Cannot read properties of null''))
      | Some hs \<Rightarrow> get_readings hs)"

definition getReadings :: "hass option \<Rightarrow> js_error + reading list" where
  "getReadings h =
     (case getMeters h of
        Inl error \<Rightarrow> Inl error
      | Inr meters \<Rightarrow> Inr (getReadings_loop (callWS_get_readings h) meters []))"






section \<open>ha-metermate-panel.js\<close>

text \<open>
  The state of the panel element. The fields are the source's \<^verbatim>\<open>_meters\<close>,
  \<^verbatim>\<open>_readings\<close>, \<^verbatim>\<open>_selectedMeter\<close> and so on. The panel is modelled once its
  \<^verbatim>\<open>_api\<close> exists, that is, once \<^verbatim>\<open>hass\<close> has been set. The timer that clears an
  alert after some seconds is left out.
\<close>

record alert =
  alert_type :: string
  alert_message :: string

record panel =
  p_meters :: "meter list"
  p_readings :: "reading list"
  p_selectedMeter :: "string option"
  p_loading :: bool
  p_showAddDialog :: bool
  p_alert :: "alert option"

definition showAlert :: "string \<Rightarrow> string \<Rightarrow> panel \<Rightarrow> panel" where
  "showAlert type msg p = p\<lparr>p_alert := Some \<lparr>alert_type = type, alert_message = msg\<rparr>\<rparr>"

definition closeAddDialog :: "panel \<Rightarrow> panel" where
  "closeAddDialog p = p\<lparr>p_showAddDialog := False\<rparr>"

text \<open>
  \<^verbatim>\<open>_loadData\<close>: both requests are awaited together; if either throws, the alert is
  shown and the old lists stay.
\<close>

definition loadData :: "hass \<Rightarrow> panel \<Rightarrow> panel" where
  "loadData hs p =
     (case (getMeters (Some hs), getReadings (Some hs)) of
        (Inr ms, Inr rs) \<Rightarrow>
          p\<lparr>p_meters := ms, p_readings := rs,
            p_selectedMeter :=
              (case ms of
                 [] \<Rightarrow> p_selectedMeter p
               | m # _ \<Rightarrow>
                   if \<not> js_truthy (p_selectedMeter p) then Some (entity_id m)
                   else p_selectedMeter p),
            p_loading := False\<rparr>
      | _ \<Rightarrow> (showAlert ''error'' ''Failed to load data'' p)\<lparr>p_loading := False\<rparr>)"

text \<open>
  The comparison function of \<^verbatim>\<open>_getFilteredReadings\<close>,
  \<^verbatim>\<open>(a, b) => new Date(b.timestamp) - new Date(a.timestamp)\<close>. With an Invalid Date
  the difference is \<^verbatim>\<open>NaN\<close>, which \<^verbatim>\<open>Array.prototype.sort\<close> takes as \<open>0\<close>.
\<close>

definition compareFn :: "reading \<Rightarrow> reading \<Rightarrow> int" where
  "compareFn a b =
     (case (timestamp b, timestamp a) of
        (Some tb, Some ta) \<Rightarrow> tb - ta
      | _ \<Rightarrow> 0)"

text \<open>
  \<^verbatim>\<open>Array.prototype.sort\<close> is a stable sort: \<open>a\<close> stays before \<open>b\<close> unless
  \<open>cmp a b > 0\<close>. It is modelled as the stable insertion sort. For a consistent
  comparison function every stable sort gives this result. \<open>compareFn\<close> is consistent
  when all timestamps are valid dates; with an Invalid Date among them it is not, the
  standard then leaves the order to the implementation, and an engine's order can
  differ from this model's. The properties of the sorted list are therefore stated
  for valid timestamps only.
\<close>

fun js_insert :: "('a \<Rightarrow> 'a \<Rightarrow> int) \<Rightarrow> 'a \<Rightarrow> 'a list \<Rightarrow> 'a list" where
  "js_insert cmp x [] = [x]"
| "js_insert cmp x (y # ys) =
     (if cmp x y > 0 then y # js_insert cmp x ys else x # y # ys)"

definition js_sort :: "('a \<Rightarrow> 'a \<Rightarrow> int) \<Rightarrow> 'a list \<Rightarrow> 'a list" where
  "js_sort cmp xs = foldr (js_insert cmp) xs []"

definition getFilteredReadings :: "panel \<Rightarrow> reading list" where
  "getFilteredReadings p =
     (if \<not> js_truthy (p_selectedMeter p) then []
      else js_sort compareFn
             (filter (\<lambda>reading. Some (meter_id reading) = p_selectedMeter p) (p_readings p)))"

text \<open>
  A date field of the submitted form, as \<^verbatim>\<open>formData.get\<close> returns it: \<^verbatim>\<open>null\<close>, the
  empty string, a string that \<^verbatim>\<open>new Date\<close> does not parse, or a string it parses to
  the given instant.
\<close>

datatype date_input = Null | Blank | Unparsable | Date instant

fun js_not_date :: "date_input \<Rightarrow> bool" where
  "js_not_date Null = True"
| "js_not_date Blank = True"
| "js_not_date Unparsable = False"
| "js_not_date (Date t) = False"

text \<open>\<^verbatim>\<open>new Date(s)\<close>: \<open>None\<close> is Invalid Date; \<^verbatim>\<open>new Date(null)\<close> is the epoch.\<close>

fun new_Date :: "date_input \<Rightarrow> instant option" where
  "new_Date Null = Some 0"
| "new_Date Blank = None"
| "new_Date Unparsable = None"
| "new_Date (Date t) = Some t"

text \<open>\<^verbatim>\<open>d1 >= d2\<close> on dates: false when either is Invalid Date.\<close>

fun date_ge :: "instant option \<Rightarrow> instant option \<Rightarrow> bool" where
  "date_ge (Some a) (Some b) = (a \<ge> b)"
| "date_ge _ _ = False"

text \<open>
  The submitted add-reading form. The two numbers are
  \<^verbatim>\<open>parseFloat(formData.get("meter_reading"))\<close> and
  \<^verbatim>\<open>parseFloat(formData.get("consumption"))\<close>.
\<close>

record form =
  entryType :: "string option"
  f_meter_reading :: js_number
  f_reading_datetime :: date_input
  f_notes :: "string option"
  f_consumption :: js_number
  f_period_start :: date_input
  f_period_end :: date_input

text \<open>\<^verbatim>\<open>error.message || error\<close> in the alert of the \<^verbatim>\<open>catch\<close> block.\<close>

definition error_text :: "js_error \<Rightarrow> string" where
  "error_text e = (if message e = [] then ''Error'' else message e)"

text \<open>\<^verbatim>\<open>new Date(s).toISOString()\<close> throws a RangeError on an Invalid Date.\<close>

definition toISOString :: "instant option \<Rightarrow> js_error + instant" where
  "toISOString d = (case d of None \<Rightarrow> Inl (Error ''Invalid time value'') | Some t \<Rightarrow> Inr t)"

text \<open>
  What follows a service call of \<^verbatim>\<open>_handleAddReading\<close>: a call that throws ends in
  the \<^verbatim>\<open>catch\<close> block; otherwise the success alert, then the dialog is closed and the
  data loaded again. The result is the list of service calls sent and the new
  panel state.
\<close>

definition failed_to_add :: "js_error \<Rightarrow> panel \<Rightarrow> panel" where
  "failed_to_add e p = showAlert ''error'' (''Failed to add reading: '' @ error_text e) p"

definition send_add ::
  "hass \<Rightarrow> service_call \<Rightarrow> string \<Rightarrow> panel \<Rightarrow> service_call list \<times> panel" where
  "send_add hs c msg p =
     (case callService hs c of
        Some e \<Rightarrow> ([c], failed_to_add e p)
      | None \<Rightarrow> ([c], loadData hs (closeAddDialog (showAlert ''success'' msg p))))"

definition handleAddReading :: "hass \<Rightarrow> form \<Rightarrow> panel \<Rightarrow> service_call list \<times> panel" where
  "handleAddReading hs f p =
     (if \<not> js_truthy (p_selectedMeter p) then
        ([], showAlert ''error'' ''Please select a meter first'' p)
      else if entryType f = Some ''meter_reading'' then
        (if js_not (f_meter_reading f) \<or> js_lt0 (f_meter_reading f) then
           ([], showAlert ''error'' ''Please enter a valid meter reading'' p)
         else
           (case toISOString (new_Date (f_reading_datetime f)) of
              Inl e \<Rightarrow> ([], failed_to_add e p)
            | Inr t \<Rightarrow>
                send_add hs
                  (add_meter_reading (the (p_selectedMeter p)) (f_meter_reading f) t
                     (js_or (f_notes f) []))
                  ''Meter reading added successfully'' p))
      else if entryType f = Some ''consumption'' then
        (if js_not (f_consumption f) \<or> js_lt0 (f_consumption f) then
           ([], showAlert ''error'' ''Please enter a valid consumption amount'' p)
         else if js_not_date (f_period_start f) \<or> js_not_date (f_period_end f) then
           ([], showAlert ''error'' ''Please specify both period start and end dates'' p)
         else if date_ge (new_Date (f_period_start f)) (new_Date (f_period_end f)) then
           ([], showAlert ''error'' ''Period start must be before period end'' p)
         else
           (case toISOString (new_Date (f_period_start f)) of
              Inl e \<Rightarrow> ([], failed_to_add e p)
            | Inr ps \<Rightarrow>
                (case toISOString (new_Date (f_period_end f)) of
                   Inl e \<Rightarrow> ([], failed_to_add e p)
                 | Inr pe \<Rightarrow>
                     send_add hs
                       (add_consumption_period (the (p_selectedMeter p)) (f_consumption f)
                          ps pe (js_or (f_notes f) []))
                       ''Consumption period added successfully'' p)))
      else ([], loadData hs (closeAddDialog p)))"

text \<open>
  \<^verbatim>\<open>_rebuildHistory\<close>; \<open>confirmed\<close> is the answer to the \<^verbatim>\<open>confirm\<close> dialog.
\<close>

definition rebuildHistory :: "hass \<Rightarrow> bool \<Rightarrow> panel \<Rightarrow> service_call list \<times> panel" where
  "rebuildHistory hs confirmed p =
     (if \<not> js_truthy (p_selectedMeter p) then
        ([], showAlert ''error'' ''Please select a meter first'' p)
      else if \<not> confirmed then ([], p)
      else
        (let c = rebuild_history (the (p_selectedMeter p))
         in case callService hs c of
              Some e \<Rightarrow>
                ([c], showAlert ''error'' (''Failed to rebuild history: '' @ message e) p)
            | None \<Rightarrow>
                ([c], loadData hs (showAlert ''success'' ''History rebuilt successfully'' p))))"

section \<open>The backend behind the service calls\<close>

text \<open>
  The integration's Python side (the reading store, the validation of new readings,
  the conversion of readings into statistics and the rebuild of a meter's history) is
  not among the frontend sources: the frontend only calls its services
  \<^verbatim>\<open>add_reading\<close>, \<^verbatim>\<open>get_readings\<close> and \<^verbatim>\<open>rebuild_history\<close>. The definitions
  of this section are therefore written from the specification, sections 3 to 4.5.
\<close>

text \<open>Modelled from the spec: the two kinds of reading (section 3).\<close>

datatype kind = point | interval

text \<open>
  Modelled from the spec: the instants of a stored reading (section 3), the timestamp
  of a point reading or the start and the end of an interval reading's period.
\<close>

datatype anchor_fields = At instant | Over instant instant

text \<open>
  Modelled from the spec: the Reading of the data model (section 3), as the Reading
  Store of the backend keeps it.
\<close>

record Reading =
  rd_id :: nat
  rd_meter_id :: string
  rd_when :: anchor_fields
  rd_value :: real
  rd_notes :: "string option"
  rd_created_at :: instant

text \<open>
  Modelled from the spec: the anchor instant of section 3 and the glossary, the
  timestamp of a point reading and the period end of an interval reading.
\<close>

fun anchor_of :: "anchor_fields \<Rightarrow> instant" where
  "anchor_of (At t) = t"
| "anchor_of (Over ps pe) = pe"

text \<open>Modelled from the spec: the anchor instant of a stored reading.\<close>

definition anchor :: "Reading \<Rightarrow> instant" where
  "anchor r = anchor_of (rd_when r)"

text \<open>Modelled from the spec: the error taxonomy of section 7.\<close>

datatype error =
  InvalidValue | InvalidPeriod | DuplicateAnchor | NonIncreasingReading
  | NotFound | PublishFailure | StoreIOFailure

text \<open>
  Modelled from the spec: a candidate reading as it reaches the Validation Layer
  (section 4.1), the fields being those of \<open>addReading\<close> in section 6.
\<close>

record reading_input =
  in_kind :: kind
  in_value :: js_number
  in_timestamp :: "instant option"
  in_period_start :: "instant option"
  in_period_end :: "instant option"
  in_notes :: "string option"

text \<open>
  Modelled from the spec: the checks of the Validation Layer (section 4.1), in the
  order the spec gives them. Check 1: the value is a finite number, at least 0.
\<close>

fun check_value :: "js_number \<Rightarrow> error + real" where
  "check_value (Num v) = (if v < 0 then Inl InvalidValue else Inr v)"
| "check_value _ = Inl InvalidValue"

text \<open>
  Modelled from the spec: checks 2 and 3. An interval needs both ends of its period,
  the start before the end; a point reading without a timestamp gets the current time.
\<close>

definition check_when :: "instant \<Rightarrow> reading_input \<Rightarrow> error + anchor_fields" where
  "check_when now inp =
     (case in_kind inp of
        interval \<Rightarrow>
          (case (in_period_start inp, in_period_end inp) of
             (Some ps, Some pe) \<Rightarrow> if ps < pe then Inr (Over ps pe) else Inl InvalidPeriod
           | _ \<Rightarrow> Inl InvalidPeriod)
      | point \<Rightarrow>
          (case in_timestamp inp of
             Some t \<Rightarrow> Inr (At t)
           | None \<Rightarrow> Inr (At now)))"

text \<open>
  Modelled from the spec: check 4, the anchor instant is not the anchor instant of an
  existing reading of the same meter.
\<close>

definition check_unique :: "Reading list \<Rightarrow> anchor_fields \<Rightarrow> error + anchor_fields" where
  "check_unique existing w =
     (if anchor_of w \<in> set (map anchor existing) then Inl DuplicateAnchor else Inr w)"

text \<open>
  Modelled from the spec: the Validation Layer of the backend (section 4.1), the four
  checks in their order; the first that fails gives the rejection reason. \<open>existing\<close>
  are the readings of the same meter.
\<close>

definition validate :: "instant \<Rightarrow> Reading list \<Rightarrow> reading_input \<Rightarrow> error + anchor_fields \<times> real" where
  "validate now existing inp =
     (case check_value (in_value inp) of
        Inl e \<Rightarrow> Inl e
      | Inr v \<Rightarrow>
          (case check_when now inp of
             Inl e \<Rightarrow> Inl e
           | Inr w \<Rightarrow>
               (case check_unique existing w of
                  Inl e \<Rightarrow> Inl e
                | Inr w' \<Rightarrow> Inr (w', v))))"

text \<open>
  Modelled from the spec: the Reading Store (section 4.5), the readings of all meters
  with the next unused id.
\<close>

record store =
  st_readings :: "Reading list"
  st_next_id :: nat

text \<open>
  Modelled from the spec: \<open>list(meter_id)\<close> of the Reading Store, ordered by anchor
  instant ascending as \<open>getReadings\<close> of section 6 promises.
\<close>

definition list_readings :: "store \<Rightarrow> string \<Rightarrow> Reading list" where
  "list_readings s m = sort_key anchor (filter (\<lambda>r. rd_meter_id r = m) (st_readings s))"

text \<open>
  Modelled from the spec: \<open>add\<close> of the Reading Store behind the Validation Layer
  (\<open>addReading\<close> of section 6). It returns the new reading or the rejection reason, and
  the store after the call: a rejected reading leaves the store as it was.
\<close>

definition store_add ::
  "instant \<Rightarrow> string \<Rightarrow> reading_input \<Rightarrow> store \<Rightarrow> (error + Reading) \<times> store" where
  "store_add now m inp s =
     (case validate now (list_readings s m) inp of
        Inl e \<Rightarrow> (Inl e, s)
      | Inr (w, v) \<Rightarrow>
          (let r = \<lparr> rd_id = st_next_id s, rd_meter_id = m, rd_when = w, rd_value = v,
                      rd_notes = in_notes inp, rd_created_at = now \<rparr>
           in (Inr r, s\<lparr>st_readings := st_readings s @ [r], st_next_id := Suc (st_next_id s)\<rparr>)))"









text \<open>
  Modelled from the spec: the policy for a point reading below the running total of
  an earlier reading (section 4.2, step 3). The spec leaves the choice open (reject
  the point or clamp it) and demands that one is chosen; it is a parameter here.
\<close>

datatype policy = Reject | Clamp

text \<open>Modelled from the spec: the Statistic Point of section 3.\<close>

type_synonym statistic_point = "instant \<times> real"

text \<open>
  Modelled from the spec: an error reported for one item (section 4.3), with the
  reading's id when the error is about a reading.
\<close>

type_synonym item_error = "nat option \<times> error"

text \<open>
  Modelled from the spec: steps 2 to 6 of the Conversion Engine (section 4.2) over the
  readings in anchor order. \<open>running\<close> is the running cumulative total. An interval
  reading adds its value to it and dates the new total at its period end. A point
  reading sets it to its value; below the running total of an earlier reading it is
  dropped or clamped, by the policy, and reported as \<open>NonIncreasingReading\<close>. \<open>seen\<close>
  tells whether an earlier reading has been processed: the initial offset alone is
  not the total of an earlier instant.
\<close>

fun accumulate ::
  "policy \<Rightarrow> bool \<Rightarrow> real \<Rightarrow> Reading list \<Rightarrow> statistic_point list \<times> item_error list" where
  "accumulate pol seen running [] = ([], [])"
| "accumulate pol seen running (r # rs) =
     (case rd_when r of
        Over ps pe \<Rightarrow>
          (let running' = running + rd_value r;
               (pts, errs) = accumulate pol True running' rs
           in ((pe, running') # pts, errs))
      | At t \<Rightarrow>
          if seen \<and> rd_value r < running then
            (let (pts, errs) = accumulate pol True running rs;
                 errs' = (Some (rd_id r), NonIncreasingReading) # errs
             in case pol of
                  Reject \<Rightarrow> (pts, errs')
                | Clamp \<Rightarrow> ((t, running) # pts, errs'))
          else
            (let (pts, errs) = accumulate pol True (rd_value r) rs
             in ((t, rd_value r) # pts, errs)))"

text \<open>
  Modelled from the spec: the Conversion Engine of the backend (section 4.2): sort by
  anchor instant ascending, then accumulate from the initial offset.
\<close>

definition convert ::
  "policy \<Rightarrow> real \<Rightarrow> Reading list \<Rightarrow> statistic_point list \<times> item_error list" where
  "convert pol initial_offset rs = accumulate pol False initial_offset (sort_key anchor rs)"

text \<open>
  Modelled from the spec: the state behind the History Rebuilder (sections 4.3 and
  4.4): the store, the initial offset of each meter (configuration, never changed by
  the core) and the series published for each meter's statistic id.
\<close>

record backend =
  bk_store :: store
  bk_initial_offset :: "string \<Rightarrow> real"
  bk_published :: "string \<rightharpoonup> statistic_point list"

text \<open>Modelled from the spec: the \<open>RebuildResult\<close> of section 4.3.\<close>

record RebuildResult =
  points_published :: nat
  errors :: "item_error list"

text \<open>
  Modelled from the spec: the series a rebuild hands to the publisher, the engine's
  output for all current readings of the meter.
\<close>

definition rebuild_series :: "policy \<Rightarrow> string \<Rightarrow> backend \<Rightarrow> statistic_point list" where
  "rebuild_series pol m b =
     fst (convert pol (bk_initial_offset b m) (list_readings (bk_store b) m))"

text \<open>
  Modelled from the spec: \<open>rebuild(meter_id)\<close> of the backend's History Rebuilder
  (section 4.3), behind the \<^verbatim>\<open>rebuild_history\<close> service. It fetches the meter's readings, runs the engine and
  hands the complete series to the publisher, which replaces the series published
  before; \<open>publish_ok\<close> tells whether the publisher accepts it. When it does not,
  nothing is published and a \<open>PublishFailure\<close> is reported. The store is never
  touched.
\<close>

definition rebuild :: "policy \<Rightarrow> bool \<Rightarrow> string \<Rightarrow> backend \<Rightarrow> RebuildResult \<times> backend" where
  "rebuild pol publish_ok m b =
     (let (pts, errs) = convert pol (bk_initial_offset b m) (list_readings (bk_store b) m)
      in if publish_ok then
           (\<lparr>points_published = length pts, errors = errs\<rparr>,
            b\<lparr>bk_published := (bk_published b)(m \<mapsto> pts)\<rparr>)
         else
           (\<lparr>points_published = 0, errors = errs @ [(None, PublishFailure)]\<rparr>, b))"

section \<open>Notions used in the properties\<close>

text \<open>
  What one meter contributes to the list of \<^verbatim>\<open>getReadings\<close>: nothing when its call
  throws, otherwise the readings of the response, each tagged with the meter.
\<close>

definition meter_readings ::
  "(string \<Rightarrow> js_error + ws_result) \<Rightarrow> meter \<Rightarrow> reading list" where
  "meter_readings call m =
     (case call (entity_id m) of
        Inl error \<Rightarrow> []
      | Inr result \<Rightarrow>
          map (\<lambda>reading. reading\<lparr>meter_id := entity_id m\<rparr>) (extract_readings result))"

text \<open>Whether a meter's \<^verbatim>\<open>get_readings\<close> call returned.\<close>

definition succeeded :: "(string \<Rightarrow> js_error + ws_result) \<Rightarrow> meter \<Rightarrow> bool" where
  "succeeded call m = (case call (entity_id m) of Inl error \<Rightarrow> False | Inr result \<Rightarrow> True)"

text \<open>
  The anchor instant of a reading object: the end of its period when it has one (the
  panel's own test \<^verbatim>\<open>reading.period_start && reading.period_end\<close>), its timestamp
  otherwise.
\<close>

definition anchor_instant :: "reading \<Rightarrow> instant option" where
  "anchor_instant r =
     (case (period_start r, period_end r) of
        (Some ps, Some pe) \<Rightarrow> Some pe
      | _ \<Rightarrow> timestamp r)"

text \<open>A list of readings ordered by anchor instant, oldest first.\<close>

definition ascending_by_anchor :: "reading list \<Rightarrow> bool" where
  "ascending_by_anchor rs =
     sorted_wrt (\<lambda>a b. case (anchor_instant a, anchor_instant b) of
                          (Some s, Some t) \<Rightarrow> s \<le> t | _ \<Rightarrow> False) rs"

text \<open>
  \<open>newer a b\<close>: both timestamps are valid dates and \<open>a\<close>'s is not before \<open>b\<close>'s. A
  list of readings is ordered by timestamp, newest first, when every reading in it
  is \<open>newer\<close> than all the readings behind it.
\<close>

definition newer :: "reading \<Rightarrow> reading \<Rightarrow> bool" where
  "newer a b =
     (case (timestamp a, timestamp b) of (Some s, Some t) \<Rightarrow> t \<le> s | _ \<Rightarrow> False)"

definition descending_by_timestamp :: "reading list \<Rightarrow> bool" where
  "descending_by_timestamp rs = sorted_wrt newer rs"

text \<open>
  The period of a submitted consumption form is in order: both dates were entered
  and the start is strictly before the end.
\<close>

definition period_ok :: "form \<Rightarrow> bool" where
  "period_ok f =
     (case (f_period_start f, f_period_end f) of
        (Date ps, Date pe) \<Rightarrow> ps < pe
      | _ \<Rightarrow> False)"

text \<open>The alert shown by a state of the panel is an error alert.\<close>

definition shows_error :: "panel \<Rightarrow> bool" where
  "shows_error p = (case p_alert p of None \<Rightarrow> False | Some a \<Rightarrow> alert_type a = ''error'')"

definition shown_message :: "panel \<Rightarrow> string" where
  "shown_message p = (case p_alert p of None \<Rightarrow> [] | Some a \<Rightarrow> alert_message a)"

text \<open>
  The running totals the spec describes for interval readings: the output at position
  \<open>i\<close> is dated at the reading's period end, and its total is the previous output's
  total (the initial offset at the first position) plus the reading's value.
\<close>

definition running_totals :: "real \<Rightarrow> Reading list \<Rightarrow> statistic_point list \<Rightarrow> bool" where
  "running_totals initial_offset rs pts =
     (length pts = length rs \<and>
      (\<forall>i < length rs.
         fst (pts ! i) = anchor (rs ! i) \<and>
         snd (pts ! i) =
           (if i = 0 then initial_offset else snd (pts ! (i - 1))) + rd_value (rs ! i)))"

text \<open>
  The anchor instant of a candidate reading, a point's timestamp (the current time
  when it has none) or an interval's period end.
\<close>

definition input_anchor :: "instant \<Rightarrow> reading_input \<Rightarrow> instant option" where
  "input_anchor now inp =
     (case in_kind inp of
        point \<Rightarrow> Some (case in_timestamp inp of Some t \<Rightarrow> t | None \<Rightarrow> now)
      | interval \<Rightarrow> in_period_end inp)"

fun is_interval :: "anchor_fields \<Rightarrow> bool" where
  "is_interval (Over ps pe) = True"
| "is_interval (At t) = False"

subsection \<open>Example data\<close>

text \<open>
  A Home Assistant instance with two MeterMate sensors and a lamp of another
  integration. The sensors have a friendly name and neither a unit nor a device class.
\<close>

definition attributes_ex :: attributes where
  "attributes_ex =
     \<lparr> friendly_name = Some ''Main meter'', unit_of_measurement = None,
       attr_device_class = None \<rparr>"

definition state_ex :: "string \<Rightarrow> state_object" where
  "state_ex e = \<lparr> st_entity_id = e, st_attributes = attributes_ex, st_state = ''150'' \<rparr>"

definition registry_ex :: "registry_entry list" where
  "registry_ex =
     [\<lparr> reg_entity_id = ''sensor.a'', platform = ''metermate'' \<rparr>,
      \<lparr> reg_entity_id = ''sensor.b'', platform = ''metermate'' \<rparr>,
      \<lparr> reg_entity_id = ''light.x'', platform = ''hue'' \<rparr>]"

text \<open>A point reading as the service sends it, not yet tagged with its meter.\<close>

definition reading_ex :: "nat \<Rightarrow> instant \<Rightarrow> real \<Rightarrow> reading" where
  "reading_ex i t v =
     \<lparr> reading_id = i, meter_id = [], timestamp = Some t, reading_value = v,
       reading_notes = None, period_start = None, period_end = None \<rparr>"

text \<open>
  The first sensor has two readings, sent oldest first. The second sensor has none
  (\<open>call_b_empty\<close>), or its call fails (\<open>call_b_fails\<close>).
\<close>

definition response_a :: "js_error + ws_result" where
  "response_a =
     Inr (WsResult (Some [reading_ex 1 1000 100, reading_ex 2 2000 150]) None None)"

definition call_b_empty :: "string \<Rightarrow> js_error + ws_result" where
  "call_b_empty e =
     (if e = ''sensor.a'' then response_a else Inr (WsResult (Some []) None None))"

definition call_b_fails :: "string \<Rightarrow> js_error + ws_result" where
  "call_b_fails e = (if e = ''sensor.a'' then response_a else Inl (Error ''timeout''))"

definition hass_ex :: "(string \<Rightarrow> js_error + ws_result) \<Rightarrow> hass" where
  "hass_ex call =
     \<lparr> states =
         [''sensor.a'' \<mapsto> state_ex ''sensor.a'', ''sensor.b'' \<mapsto> state_ex ''sensor.b''],
       entity_registry_list = Inr registry_ex,
       get_readings = call,
       callService = (\<lambda>c. None) \<rparr>"

text \<open>The panel before its first load, and with the first sensor selected.\<close>

definition panel_ex :: panel where
  "panel_ex =
     \<lparr> p_meters = [], p_readings = [], p_selectedMeter = None, p_loading = False,
       p_showAddDialog = True, p_alert = None \<rparr>"

definition panel_a :: panel where
  "panel_a = panel_ex\<lparr>p_selectedMeter := Some ''sensor.a''\<rparr>"

text \<open>A submitted form, for a meter reading or for a consumption period.\<close>

definition meter_reading_form :: "js_number \<Rightarrow> date_input \<Rightarrow> form" where
  "meter_reading_form v d =
     \<lparr> entryType = Some ''meter_reading'', f_meter_reading = v, f_reading_datetime = d,
       f_notes = Some [], f_consumption = NaN, f_period_start = Blank,
       f_period_end = Blank \<rparr>"

definition consumption_form :: "js_number \<Rightarrow> date_input \<Rightarrow> date_input \<Rightarrow> form" where
  "consumption_form v ps pe =
     \<lparr> entryType = Some ''consumption'', f_meter_reading = NaN,
       f_reading_datetime = Blank, f_notes = Some ''May bill'', f_consumption = v,
       f_period_start = ps, f_period_end = pe \<rparr>"

text \<open>A stored reading of meter \<open>sensor.a\<close>, and an empty store and backend.\<close>

definition Reading_ex :: "nat \<Rightarrow> anchor_fields \<Rightarrow> real \<Rightarrow> Reading" where
  "Reading_ex i w v =
     \<lparr> rd_id = i, rd_meter_id = ''sensor.a'', rd_when = w, rd_value = v,
       rd_notes = None, rd_created_at = 0 \<rparr>"

definition store_ex :: "Reading list \<Rightarrow> store" where
  "store_ex rs = \<lparr> st_readings = rs, st_next_id = length rs \<rparr>"

definition backend_ex :: "Reading list \<Rightarrow> backend" where
  "backend_ex rs =
     \<lparr> bk_store = store_ex rs, bk_initial_offset = (\<lambda>m. 0),
       bk_published = Map.empty \<rparr>"

text \<open>A candidate point reading, and the reading stored for one added at instant 5000.\<close>

definition point_input :: "js_number \<Rightarrow> instant \<Rightarrow> reading_input" where
  "point_input v t =
     \<lparr> in_kind = point, in_value = v, in_timestamp = Some t, in_period_start = None,
       in_period_end = None, in_notes = None \<rparr>"


section \<open>Properties of api.js\<close>

subsection \<open>The loop of getReadings\<close>

lemma getReadings_loop_concat:
  "getReadings_loop call meters acc = acc @ concat (map (meter_readings call) meters)"
  by (induction meters arbitrary: acc) (auto simp: meter_readings_def split: sum.splits)

lemma meter_readings_meter_id:
  "r \<in> set (meter_readings call m) \<Longrightarrow> meter_id r = entity_id m"
  by (auto simp: meter_readings_def split: sum.splits)

lemma filter_meter_readings:
  "filter (\<lambda>r. meter_id r = e) (meter_readings call m) =
     (if entity_id m = e then meter_readings call m else [])"
proof (cases "entity_id m = e")
  case True
  then have "\<forall>r \<in> set (meter_readings call m). meter_id r = e"
    by (simp add: meter_readings_meter_id)
  with True show ?thesis by simp
next
  case False
  then have "\<forall>r \<in> set (meter_readings call m). meter_id r \<noteq> e"
    by (simp add: meter_readings_meter_id)
  with False show ?thesis by simp
qed

lemma filter_concat_meter_readings:
  "filter (\<lambda>r. meter_id r = e) (concat (map (meter_readings call) meters)) =
     concat (map (meter_readings call) (filter (\<lambda>m. entity_id m = e) meters))"
  by (induction meters) (simp_all add: filter_meter_readings)

lemma meter_readings_failed: "\<not> succeeded call m \<Longrightarrow> meter_readings call m = []"
  by (simp add: succeeded_def meter_readings_def split: sum.splits)

lemma concat_meter_readings_succeeded:
  "concat (map (meter_readings call) (filter (succeeded call) meters)) =
     concat (map (meter_readings call) meters)"
  by (induction meters) (simp_all add: meter_readings_failed)

lemma getReadings_cases:
  "getReadings h =
     (case getMeters h of
        Inl error \<Rightarrow> Inl error
      | Inr ms \<Rightarrow> Inr (concat (map (meter_readings (callWS_get_readings h)) ms)))"
  by (simp add: getReadings_def getReadings_loop_concat split: sum.splits)

subsection \<open>The example instance\<close>

lemma getMeters_ex:
  "getMeters (Some (hass_ex call)) =
     Inr [make_meter (state_ex ''sensor.a''), make_meter (state_ex ''sensor.b'')]"
  by (simp add: getMeters_def hass_ex_def registry_ex_def is_sensor_def state_ex_def)

lemma entity_id_ex: "entity_id (make_meter (state_ex e)) = e"
  by (simp add: make_meter_def state_ex_def)

lemma callWS_ex: "callWS_get_readings (Some (hass_ex call)) = call"
  by (simp add: callWS_get_readings_def hass_ex_def)

lemma tagged_a:
  "meter_readings call_b_empty (make_meter (state_ex ''sensor.a'')) =
     [(reading_ex 1 1000 100)\<lparr>meter_id := ''sensor.a''\<rparr>,
      (reading_ex 2 2000 150)\<lparr>meter_id := ''sensor.a''\<rparr>]"
  "meter_readings call_b_fails (make_meter (state_ex ''sensor.a'')) =
     [(reading_ex 1 1000 100)\<lparr>meter_id := ''sensor.a''\<rparr>,
      (reading_ex 2 2000 150)\<lparr>meter_id := ''sensor.a''\<rparr>]"
  by (simp_all add: meter_readings_def entity_id_ex call_b_empty_def call_b_fails_def
        response_a_def extract_readings_def)

lemma tagged_b:
  "meter_readings call_b_empty (make_meter (state_ex ''sensor.b'')) = []"
  "meter_readings call_b_fails (make_meter (state_ex ''sensor.b'')) = []"
  by (simp_all add: meter_readings_def entity_id_ex call_b_empty_def call_b_fails_def
        extract_readings_def)

lemma getReadings_ex:
  "getReadings (Some (hass_ex call_b_empty)) =
     Inr [(reading_ex 1 1000 100)\<lparr>meter_id := ''sensor.a''\<rparr>,
          (reading_ex 2 2000 150)\<lparr>meter_id := ''sensor.a''\<rparr>]"
  "getReadings (Some (hass_ex call_b_fails)) =
     Inr [(reading_ex 1 1000 100)\<lparr>meter_id := ''sensor.a''\<rparr>,
          (reading_ex 2 2000 150)\<lparr>meter_id := ''sensor.a''\<rparr>]"
  by (simp_all add: getReadings_cases getMeters_ex callWS_ex tagged_a tagged_b)

subsection \<open>getMeters\<close>

lemma js_or_nonempty: "d \<noteq> [] \<Longrightarrow> js_or a d \<noteq> []"
  by (simp add: js_or_def split: option.splits)

lemma js_or_None: "js_or None d = d"
  by (simp add: js_or_def)

lemma getMeters_Some_cases:
  assumes "getMeters (Some hs) = Inr ms" and "m \<in> set ms"
  obtains registry where "entity_registry_list hs = Inr registry"
    and "m \<in> set (map (\<lambda>entity. make_meter (the entity))
           (filter is_sensor (map (states hs)
              (map reg_entity_id
                 (filter (\<lambda>entity. platform entity = ''metermate'') registry)))))"
  using assms
  by (auto simp: getMeters_def Let_def split: sum.splits if_splits)

text \<open>
  C10. Every meter that \<^verbatim>\<open>getMeters\<close> returns comes from an entry of the entity
  registry whose platform is \<^verbatim>\<open>metermate\<close> and whose entity id starts with
  \<^verbatim>\<open>sensor.\<close>; its unit and its device class are never empty, the unit being
  \<^verbatim>\<open>kWh\<close> and the device class \<^verbatim>\<open>energy\<close> when the entity has no such attribute.
  The state table is the one of Home Assistant, where the state stored under a key
  carries that key as its entity id.
\<close>

theorem getMeters_metermate_sensors:
  assumes wf: "\<forall>k s. states hs k = Some s \<longrightarrow> st_entity_id s = k"
    and ok: "getMeters (Some hs) = Inr ms"
    and m: "m \<in> set ms"
  shows "\<exists>registry entry s.
           entity_registry_list hs = Inr registry \<and> entry \<in> set registry \<and>
           platform entry = ''metermate'' \<and> reg_entity_id entry = entity_id m \<and>
           prefix ''sensor.'' (reg_entity_id entry) \<and>
           states hs (reg_entity_id entry) = Some s \<and>
           unit m \<noteq> [] \<and> device_class m \<noteq> [] \<and>
           (unit_of_measurement (st_attributes s) = None \<longrightarrow> unit m = ''kWh'') \<and>
           (attr_device_class (st_attributes s) = None \<longrightarrow> device_class m = ''energy'')"
proof -
  from ok m obtain registry where reg: "entity_registry_list hs = Inr registry"
    and mem: "m \<in> set (map (\<lambda>entity. make_meter (the entity))
           (filter is_sensor (map (states hs)
              (map reg_entity_id
                 (filter (\<lambda>entity. platform entity = ''metermate'') registry)))))"
    by (rule getMeters_Some_cases)
  from mem obtain entry where entry: "entry \<in> set registry" "platform entry = ''metermate''"
    and sens: "is_sensor (states hs (reg_entity_id entry))"
    and mm: "m = make_meter (the (states hs (reg_entity_id entry)))"
    by auto
  from sens obtain s where s: "states hs (reg_entity_id entry) = Some s"
    and pre: "prefix ''sensor.'' (st_entity_id s)"
    by (auto simp: is_sensor_def split: option.splits)
  from wf s have key: "st_entity_id s = reg_entity_id entry" by blast
  from mm s have m_eq: "m = make_meter s" by simp
  have "entity_id m = reg_entity_id entry"
    using m_eq key by (simp add: make_meter_def)
  moreover have "unit m \<noteq> []" "device_class m \<noteq> []"
    using m_eq by (simp_all add: make_meter_def js_or_nonempty)
  moreover have "unit_of_measurement (st_attributes s) = None \<longrightarrow> unit m = ''kWh''"
    using m_eq by (simp add: make_meter_def js_or_None)
  moreover have "attr_device_class (st_attributes s) = None \<longrightarrow> device_class m = ''energy''"
    using m_eq by (simp add: make_meter_def js_or_None)
  ultimately show ?thesis
    using reg entry s pre key by auto
qed

text \<open>
  The theorem at the example instance: its first sensor is returned, with the two
  defaults.
\<close>

theorem getMeters_metermate_sensors_witness:
  "getMeters (Some (hass_ex call_b_empty)) =
     Inr [make_meter (state_ex ''sensor.a''), make_meter (state_ex ''sensor.b'')] \<and>
   make_meter (state_ex ''sensor.a'') \<in>
     set [make_meter (state_ex ''sensor.a''), make_meter (state_ex ''sensor.b'')] \<and>
   (\<exists>registry entry s.
      entity_registry_list (hass_ex call_b_empty) = Inr registry \<and> entry \<in> set registry \<and>
      platform entry = ''metermate'' \<and>
      reg_entity_id entry = entity_id (make_meter (state_ex ''sensor.a'')) \<and>
      prefix ''sensor.'' (reg_entity_id entry) \<and>
      states (hass_ex call_b_empty) (reg_entity_id entry) = Some s \<and>
      unit (make_meter (state_ex ''sensor.a'')) \<noteq> [] \<and>
      device_class (make_meter (state_ex ''sensor.a'')) \<noteq> [] \<and>
      (unit_of_measurement (st_attributes s) = None \<longrightarrow>
         unit (make_meter (state_ex ''sensor.a'')) = ''kWh'') \<and>
      (attr_device_class (st_attributes s) = None \<longrightarrow>
         device_class (make_meter (state_ex ''sensor.a'')) = ''energy''))"
proof -
  have wf: "\<forall>k s. states (hass_ex call_b_empty) k = Some s \<longrightarrow> st_entity_id s = k"
    by (auto simp: hass_ex_def state_ex_def split: if_splits)
  have ok: "getMeters (Some (hass_ex call_b_empty)) =
     Inr [make_meter (state_ex ''sensor.a''), make_meter (state_ex ''sensor.b'')]"
    by (rule getMeters_ex)
  have m: "make_meter (state_ex ''sensor.a'') \<in>
     set [make_meter (state_ex ''sensor.a''), make_meter (state_ex ''sensor.b'')]"
    by simp
  show ?thesis
    by (intro conjI) (rule ok, rule m, rule getMeters_metermate_sensors [OF wf ok m])
qed

subsection \<open>getReadings\<close>

lemma filter_distinct_key:
  "distinct (map f xs) \<Longrightarrow> m \<in> set xs \<Longrightarrow> filter (\<lambda>x. f x = f m) xs = [m]"
proof (induction xs)
  case Nil
  then show ?case by simp
next
  case (Cons x xs)
  show ?case
  proof (cases "x = m")
    case True
    from Cons.prems True have "f m \<notin> f ` set xs" by simp
    then have "\<forall>y \<in> set xs. f y \<noteq> f m" by (metis imageI)
    then have "filter (\<lambda>x. f x = f m) xs = []" by (simp add: filter_empty_conv)
    with True show ?thesis by simp
  next
    case False
    with Cons.prems have "m \<in> set xs" and "f x \<noteq> f m" by auto
    with Cons show ?thesis by simp
  qed
qed

text \<open>
  C9. Every reading in the list of \<^verbatim>\<open>getReadings\<close> carries as \<open>meter_id\<close> the entity
  id of the meter whose \<^verbatim>\<open>get_readings\<close> call produced it. So the readings with a
  given \<open>meter_id\<close> are the readings produced for the meters of that entity id, in
  order; entity ids being distinct, they are exactly that one meter's readings.
\<close>

theorem getReadings_meter_id:
  assumes "getReadings h = Inr rs"
  shows "\<exists>ms. getMeters h = Inr ms \<and>
           (\<forall>r \<in> set rs. \<exists>m \<in> set ms.
               meter_id r = entity_id m \<and>
               r \<in> set (meter_readings (callWS_get_readings h) m)) \<and>
           (\<forall>e. filter (\<lambda>r. meter_id r = e) rs =
                 concat (map (meter_readings (callWS_get_readings h))
                           (filter (\<lambda>m. entity_id m = e) ms))) \<and>
           (distinct (map entity_id ms) \<longrightarrow>
              (\<forall>m \<in> set ms. filter (\<lambda>r. meter_id r = entity_id m) rs =
                 meter_readings (callWS_get_readings h) m))"
proof -
  from assms obtain ms where ms: "getMeters h = Inr ms"
    and rs: "rs = concat (map (meter_readings (callWS_get_readings h)) ms)"
    by (auto simp: getReadings_cases split: sum.splits)
  have tagged: "\<forall>r \<in> set rs. \<exists>m \<in> set ms.
      meter_id r = entity_id m \<and> r \<in> set (meter_readings (callWS_get_readings h) m)"
    using rs by (auto simp: meter_readings_meter_id)
  have by_id: "\<forall>e. filter (\<lambda>r. meter_id r = e) rs =
      concat (map (meter_readings (callWS_get_readings h)) (filter (\<lambda>m. entity_id m = e) ms))"
    using rs by (simp add: filter_concat_meter_readings)
  have one: "distinct (map entity_id ms) \<longrightarrow>
      (\<forall>m \<in> set ms. filter (\<lambda>r. meter_id r = entity_id m) rs =
         meter_readings (callWS_get_readings h) m)"
  proof (intro impI ballI)
    fix m assume "distinct (map entity_id ms)" and "m \<in> set ms"
    then have "filter (\<lambda>x. entity_id x = entity_id m) ms = [m]"
      by (rule filter_distinct_key)
    with by_id show "filter (\<lambda>r. meter_id r = entity_id m) rs =
         meter_readings (callWS_get_readings h) m"
      by simp
  qed
  from ms tagged by_id one show ?thesis by blast
qed

text \<open>
  The theorem at the example instance: the readings tagged \<open>sensor.a\<close> are those of
  the first sensor.
\<close>

theorem getReadings_meter_id_witness:
  "getReadings (Some (hass_ex call_b_empty)) =
     Inr [(reading_ex 1 1000 100)\<lparr>meter_id := ''sensor.a''\<rparr>,
          (reading_ex 2 2000 150)\<lparr>meter_id := ''sensor.a''\<rparr>] \<and>
   filter (\<lambda>r. meter_id r = ''sensor.a'')
     [(reading_ex 1 1000 100)\<lparr>meter_id := ''sensor.a''\<rparr>,
      (reading_ex 2 2000 150)\<lparr>meter_id := ''sensor.a''\<rparr>] =
     meter_readings call_b_empty (make_meter (state_ex ''sensor.a''))"
proof -
  have ok: "getReadings (Some (hass_ex call_b_empty)) =
     Inr [(reading_ex 1 1000 100)\<lparr>meter_id := ''sensor.a''\<rparr>,
          (reading_ex 2 2000 150)\<lparr>meter_id := ''sensor.a''\<rparr>]"
    by (rule getReadings_ex)
  have d: "distinct (map entity_id
      [make_meter (state_ex ''sensor.a''), make_meter (state_ex ''sensor.b'')])"
    by (simp add: entity_id_ex)
  from getReadings_meter_id [OF ok]
  obtain ms where ms: "getMeters (Some (hass_ex call_b_empty)) = Inr ms"
    and one: "distinct (map entity_id ms) \<longrightarrow>
      (\<forall>m \<in> set ms.
         filter (\<lambda>r. meter_id r = entity_id m)
           [(reading_ex 1 1000 100)\<lparr>meter_id := ''sensor.a''\<rparr>,
            (reading_ex 2 2000 150)\<lparr>meter_id := ''sensor.a''\<rparr>] =
         meter_readings (callWS_get_readings (Some (hass_ex call_b_empty))) m)"
    by blast
  from ms have ms_eq:
    "ms = [make_meter (state_ex ''sensor.a''), make_meter (state_ex ''sensor.b'')]"
    by (simp add: getMeters_ex)
  from one d have
    "filter (\<lambda>r. meter_id r = entity_id (make_meter (state_ex ''sensor.a'')))
       [(reading_ex 1 1000 100)\<lparr>meter_id := ''sensor.a''\<rparr>,
        (reading_ex 2 2000 150)\<lparr>meter_id := ''sensor.a''\<rparr>] =
     meter_readings (callWS_get_readings (Some (hass_ex call_b_empty)))
       (make_meter (state_ex ''sensor.a''))"
    unfolding ms_eq by simp
  then have 2: "filter (\<lambda>r. meter_id r = ''sensor.a'')
       [(reading_ex 1 1000 100)\<lparr>meter_id := ''sensor.a''\<rparr>,
        (reading_ex 2 2000 150)\<lparr>meter_id := ''sensor.a''\<rparr>] =
     meter_readings call_b_empty (make_meter (state_ex ''sensor.a''))"
    unfolding entity_id_ex callWS_ex .
  from ok 2 show ?thesis by (rule conjI)
qed

text \<open>
  C5, as stated, asks that the caller of the aggregate \<^verbatim>\<open>getReadings\<close> receives an
  outcome for each meter. It does not: a meter whose call fails and a meter that has
  no readings give the same result.
\<close>

theorem getReadings_hides_failed_meter:
  "getReadings (Some (hass_ex call_b_fails)) = getReadings (Some (hass_ex call_b_empty)) \<and>
   get_readings (hass_ex call_b_fails) ''sensor.b'' = Inl (Error ''timeout'') \<and>
   get_readings (hass_ex call_b_empty) ''sensor.b'' = Inr (WsResult (Some []) None None)"
proof (intro conjI)
  show "getReadings (Some (hass_ex call_b_fails)) = getReadings (Some (hass_ex call_b_empty))"
    by (simp only: getReadings_ex)
  show "get_readings (hass_ex call_b_fails) ''sensor.b'' = Inl (Error ''timeout'')"
    by (simp add: hass_ex_def call_b_fails_def)
  show "get_readings (hass_ex call_b_empty) ''sensor.b'' = Inr (WsResult (Some []) None None)"
    by (simp add: hass_ex_def call_b_empty_def)
qed

text \<open>
  C5, amended. When the meters can be listed, \<^verbatim>\<open>getReadings\<close> returns a list and
  never throws because one meter's call does. The list holds the readings of every
  meter whose call succeeded, and is the list that the succeeding meters alone would
  give: a failed call is logged and leaves no trace in the result.
\<close>

theorem getReadings_skips_failed_meters:
  assumes "getMeters h = Inr ms"
  shows "\<exists>rs. getReadings h = Inr rs \<and>
           (\<forall>m \<in> set ms. \<forall>result. callWS_get_readings h (entity_id m) = Inr result \<longrightarrow>
              (\<forall>r \<in> set (extract_readings result). r\<lparr>meter_id := entity_id m\<rparr> \<in> set rs)) \<and>
           rs = getReadings_loop (callWS_get_readings h)
                  (filter (succeeded (callWS_get_readings h)) ms) []"
proof -
  let ?call = "callWS_get_readings h"
  let ?rs = "concat (map (meter_readings ?call) ms)"
  have 1: "getReadings h = Inr ?rs"
    using assms by (simp add: getReadings_cases)
  have 2: "\<forall>m \<in> set ms. \<forall>result. ?call (entity_id m) = Inr result \<longrightarrow>
      (\<forall>r \<in> set (extract_readings result). r\<lparr>meter_id := entity_id m\<rparr> \<in> set ?rs)"
  proof (intro ballI allI impI)
    fix m result r
    assume m: "m \<in> set ms" and c: "?call (entity_id m) = Inr result"
      and r: "r \<in> set (extract_readings result)"
    from c r have "r\<lparr>meter_id := entity_id m\<rparr> \<in> set (meter_readings ?call m)"
      by (simp add: meter_readings_def)
    with m show "r\<lparr>meter_id := entity_id m\<rparr> \<in> set ?rs" by auto
  qed
  have 3: "?rs = getReadings_loop ?call (filter (succeeded ?call) ms) []"
    by (simp add: getReadings_loop_concat concat_meter_readings_succeeded)
  from 1 2 3 show ?thesis by blast
qed

text \<open>
  The theorem at the example instance with the second sensor's call failing: the
  first sensor's readings are returned.
\<close>

theorem getReadings_skips_failed_meters_witness:
  "getReadings (Some (hass_ex call_b_fails)) =
     Inr [(reading_ex 1 1000 100)\<lparr>meter_id := ''sensor.a''\<rparr>,
          (reading_ex 2 2000 150)\<lparr>meter_id := ''sensor.a''\<rparr>] \<and>
   call_b_fails ''sensor.b'' = Inl (Error ''timeout'') \<and>
   filter (succeeded call_b_fails)
     [make_meter (state_ex ''sensor.a''), make_meter (state_ex ''sensor.b'')] =
     [make_meter (state_ex ''sensor.a'')] \<and>
   getReadings_loop call_b_fails [make_meter (state_ex ''sensor.a'')] [] =
     [(reading_ex 1 1000 100)\<lparr>meter_id := ''sensor.a''\<rparr>,
      (reading_ex 2 2000 150)\<lparr>meter_id := ''sensor.a''\<rparr>]"
proof -
  have f: "filter (succeeded call_b_fails)
     [make_meter (state_ex ''sensor.a''), make_meter (state_ex ''sensor.b'')] =
     [make_meter (state_ex ''sensor.a'')]"
    by (simp add: succeeded_def entity_id_ex call_b_fails_def response_a_def)
  from getReadings_skips_failed_meters [OF getMeters_ex [of call_b_fails]]
  obtain rs where a: "getReadings (Some (hass_ex call_b_fails)) = Inr rs"
    and b: "rs = getReadings_loop (callWS_get_readings (Some (hass_ex call_b_fails)))
                  (filter (succeeded (callWS_get_readings (Some (hass_ex call_b_fails))))
                     [make_meter (state_ex ''sensor.a''), make_meter (state_ex ''sensor.b'')]) []"
    by blast
  from b have "rs = getReadings_loop call_b_fails [make_meter (state_ex ''sensor.a'')] []"
    unfolding callWS_ex f .
  with a show ?thesis
    using f by (simp add: getReadings_ex call_b_fails_def)
qed

section \<open>Properties of ha-metermate-panel.js\<close>

subsection \<open>The sort of the readings\<close>

lemma mset_js_insert: "mset (js_insert cmp x ys) = add_mset x (mset ys)"
  by (induction ys) simp_all

lemma mset_js_sort: "mset (js_sort cmp xs) = mset xs"
  by (induction xs) (simp_all add: js_sort_def mset_js_insert)

lemma set_js_insert: "set (js_insert cmp x ys) = insert x (set ys)"
  by (induction ys) auto

lemma newer_iff:
  "timestamp a = Some s \<Longrightarrow> timestamp b = Some t \<Longrightarrow> newer a b \<longleftrightarrow> t \<le> s"
  by (simp add: newer_def)

lemma compareFn_valid:
  "timestamp a = Some s \<Longrightarrow> timestamp b = Some t \<Longrightarrow> compareFn a b = t - s"
  by (simp add: compareFn_def)

lemma sorted_js_insert:
  assumes "timestamp x \<noteq> None" and "\<forall>y \<in> set ys. timestamp y \<noteq> None"
    and "sorted_wrt newer ys"
  shows "sorted_wrt newer (js_insert compareFn x ys)"
  using assms
proof (induction ys)
  case Nil
  then show ?case by simp
next
  case (Cons y ys)
  from Cons.prems obtain s t where s: "timestamp x = Some s" and t: "timestamp y = Some t"
    by auto
  show ?case
  proof (cases "compareFn x y > 0")
    case True
    with s t have "s < t" by (simp add: compareFn_valid)
    with s t have yx: "newer y x" by (simp add: newer_iff)
    from Cons have "sorted_wrt newer (js_insert compareFn x ys)" by simp
    with True yx Cons.prems show ?thesis by (auto simp: set_js_insert)
  next
    case False
    with s t have ts: "t \<le> s" by (simp add: compareFn_valid)
    have "\<forall>z \<in> set (y # ys). newer x z"
    proof
      fix z assume z: "z \<in> set (y # ys)"
      with Cons.prems obtain u where u: "timestamp z = Some u" by auto
      from z Cons.prems(3) t u have "u \<le> t" by (auto simp: newer_iff)
      with ts s u show "newer x z" by (simp add: newer_iff)
    qed
    with False Cons.prems show ?thesis by simp
  qed
qed

lemma sorted_js_sort:
  "\<forall>y \<in> set xs. timestamp y \<noteq> None \<Longrightarrow> sorted_wrt newer (js_sort compareFn xs)"
proof (induction xs)
  case Nil
  then show ?case by (simp add: js_sort_def)
next
  case (Cons x xs)
  then have "sorted_wrt newer (js_sort compareFn xs)" by simp
  moreover have "\<forall>y \<in> set (js_sort compareFn xs). timestamp y \<noteq> None"
    using Cons.prems mset_js_sort [of compareFn xs] by (metis list.set_intros(2) set_mset_mset)
  ultimately have "sorted_wrt newer (js_insert compareFn x (js_sort compareFn xs))"
    using Cons.prems by (simp add: sorted_js_insert)
  then show ?case by (simp add: js_sort_def)
qed

subsection \<open>The example panel\<close>

lemma loadData_ex:
  "loadData (hass_ex call_b_empty) panel_ex =
     panel_ex\<lparr>p_meters := [make_meter (state_ex ''sensor.a''), make_meter (state_ex ''sensor.b'')],
       p_readings := [(reading_ex 1 1000 100)\<lparr>meter_id := ''sensor.a''\<rparr>,
                      (reading_ex 2 2000 150)\<lparr>meter_id := ''sensor.a''\<rparr>],
       p_selectedMeter := Some ''sensor.a''\<rparr>"
  by (simp add: loadData_def getMeters_ex getReadings_ex entity_id_ex panel_ex_def js_truthy_def)

lemma getFilteredReadings_ex:
  "getFilteredReadings (loadData (hass_ex call_b_empty) panel_ex) =
     [(reading_ex 2 2000 150)\<lparr>meter_id := ''sensor.a''\<rparr>,
      (reading_ex 1 1000 100)\<lparr>meter_id := ''sensor.a''\<rparr>]"
  by (simp add: loadData_ex getFilteredReadings_def js_truthy_def js_sort_def compareFn_def
        reading_ex_def)

subsection \<open>The readings shown for the selected meter\<close>

text \<open>
  C2, as stated, asks that the list the panel shows for the selected meter is ordered
  by anchor instant ascending. After loading the example instance, whose service sends
  the readings oldest first, the panel's list has the reading of instant 2000 before
  the reading of instant 1000.
\<close>

theorem getFilteredReadings_not_ascending:
  "\<not> ascending_by_anchor (getFilteredReadings (loadData (hass_ex call_b_empty) panel_ex))"
  by (simp add: getFilteredReadings_ex ascending_by_anchor_def anchor_instant_def reading_ex_def)

text \<open>
  C2, amended. The list \<^verbatim>\<open>_getFilteredReadings\<close> returns holds the readings of the
  selected meter, each once, ordered by timestamp descending (newest first), provided
  the timestamp of each of them is a valid date.
\<close>

theorem getFilteredReadings_newest_first:
  assumes "\<forall>r \<in> set (p_readings p).
             Some (meter_id r) = p_selectedMeter p \<longrightarrow> timestamp r \<noteq> None"
  shows "descending_by_timestamp (getFilteredReadings p) \<and>
         mset (getFilteredReadings p) =
           (if js_truthy (p_selectedMeter p)
            then mset (filter (\<lambda>r. Some (meter_id r) = p_selectedMeter p) (p_readings p))
            else {#})"
proof -
  let ?sel = "filter (\<lambda>r. Some (meter_id r) = p_selectedMeter p) (p_readings p)"
  from assms have "\<forall>y \<in> set ?sel. timestamp y \<noteq> None" by simp
  then have "sorted_wrt newer (js_sort compareFn ?sel)" by (rule sorted_js_sort)
  then have "descending_by_timestamp (getFilteredReadings p)"
    by (simp add: descending_by_timestamp_def getFilteredReadings_def)
  moreover have "mset (getFilteredReadings p) =
           (if js_truthy (p_selectedMeter p) then mset ?sel else {#})"
    by (simp add: getFilteredReadings_def mset_js_sort)
  ultimately show ?thesis by simp
qed

text \<open>The theorem at the example panel: the newer reading comes first.\<close>

theorem getFilteredReadings_newest_first_witness:
  "getFilteredReadings (loadData (hass_ex call_b_empty) panel_ex) =
     [(reading_ex 2 2000 150)\<lparr>meter_id := ''sensor.a''\<rparr>,
      (reading_ex 1 1000 100)\<lparr>meter_id := ''sensor.a''\<rparr>] \<and>
   descending_by_timestamp
     [(reading_ex 2 2000 150)\<lparr>meter_id := ''sensor.a''\<rparr>,
      (reading_ex 1 1000 100)\<lparr>meter_id := ''sensor.a''\<rparr>]"
proof -
  have "\<forall>r \<in> set (p_readings (loadData (hass_ex call_b_empty) panel_ex)).
      Some (meter_id r) = p_selectedMeter (loadData (hass_ex call_b_empty) panel_ex) \<longrightarrow>
      timestamp r \<noteq> None"
    by (simp add: loadData_ex reading_ex_def)
  from getFilteredReadings_newest_first [OF this]
  have "descending_by_timestamp (getFilteredReadings (loadData (hass_ex call_b_empty) panel_ex))"
    by (rule conjunct1)
  then show ?thesis by (simp only: getFilteredReadings_ex simp_thms)
qed

subsection \<open>Submitting the add-reading form\<close>

lemma fst_send_add: "fst (send_add hs c msg p) = [c]"
  by (simp add: send_add_def split: option.splits)

lemma shows_error_showAlert: "shows_error (showAlert ''error'' msg p)"
  by (simp add: shows_error_def showAlert_def)

lemma shown_message_showAlert: "shown_message (showAlert type msg p) = msg"
  by (simp add: shown_message_def showAlert_def)

text \<open>
  The value check of a meter-reading submission, the meter being selected and the date
  valid: the reading is sent exactly when the value is neither \<^verbatim>\<open>NaN\<close> nor 0 nor
  negative; otherwise nothing is sent and an error alert is shown.
\<close>

lemma meter_reading_value_check:
  assumes "js_truthy (p_selectedMeter p)" and "entryType f = Some ''meter_reading''"
    and "new_Date (f_reading_datetime f) = Some t"
  shows "fst (handleAddReading hs f p) \<noteq> [] \<longleftrightarrow>
           \<not> js_not (f_meter_reading f) \<and> \<not> js_lt0 (f_meter_reading f)"
    and "fst (handleAddReading hs f p) = [] \<Longrightarrow> shows_error (snd (handleAddReading hs f p))"
  using assms
  by (auto simp: handleAddReading_def toISOString_def fst_send_add shows_error_showAlert)

text \<open>
  C3. The claim is that a value is accepted whenever it is a finite number, at least
  0. The form's inputs allow 0 (\<^verbatim>\<open>min="0"\<close>), but the test \<^verbatim>\<open>!meterReading\<close>, which
  is there to catch \<^verbatim>\<open>NaN\<close>, is also true of 0: a meter reading of 0 and a consumption
  of 0 are both rejected, with no service call.
\<close>

theorem handleAddReading_rejects_zero:
  "handleAddReading (hass_ex call_b_empty) (meter_reading_form (Num 0) (Date 5000)) panel_a =
     ([], showAlert ''error'' ''Please enter a valid meter reading'' panel_a) \<and>
   handleAddReading (hass_ex call_b_empty) (consumption_form (Num 0) (Date 1000) (Date 2000))
       panel_a =
     ([], showAlert ''error'' ''Please enter a valid consumption amount'' panel_a)"
  by (simp add: handleAddReading_def meter_reading_form_def consumption_form_def panel_a_def
        panel_ex_def js_truthy_def)

lemma period_ok_iff:
  "period_ok f \<longleftrightarrow>
     (\<exists>ps pe. f_period_start f = Date ps \<and> f_period_end f = Date pe \<and> ps < pe)"
  by (auto simp: period_ok_def split: date_input.splits)

lemma consumption_rejected:
  assumes "entryType f = Some ''consumption''" and "\<not> period_ok f"
  shows "fst (handleAddReading hs f p) = [] \<and> shows_error (snd (handleAddReading hs f p))"
  using assms
  by (cases "f_period_start f"; cases "f_period_end f")
     (simp_all add: handleAddReading_def period_ok_def shows_error_showAlert
        failed_to_add_def toISOString_def)

lemma consumption_period_message:
  assumes "entryType f = Some ''consumption''" and "\<not> period_ok f"
    and "js_truthy (p_selectedMeter p)"
    and "\<not> js_not (f_consumption f)" and "\<not> js_lt0 (f_consumption f)"
  shows "shown_message (snd (handleAddReading hs f p)) \<in>
           {''Please specify both period start and end dates'',
            ''Period start must be before period end'',
            ''Failed to add reading: Invalid time value''}"
  using assms
  by (cases "f_period_start f"; cases "f_period_end f")
     (simp_all add: handleAddReading_def period_ok_def shown_message_showAlert
        failed_to_add_def toISOString_def error_text_def)

lemma consumption_accepted:
  assumes "entryType f = Some ''consumption''"
    and "f_period_start f = Date ps" and "f_period_end f = Date pe" and "ps < pe"
    and "p_selectedMeter p = Some sel" and "sel \<noteq> []"
    and "\<not> js_not (f_consumption f)" and "\<not> js_lt0 (f_consumption f)"
  shows "fst (handleAddReading hs f p) =
           [add_consumption_period sel (f_consumption f) ps pe (js_or (f_notes f) [])]"
  using assms
  by (simp add: handleAddReading_def js_truthy_def toISOString_def fst_send_add)

text \<open>
  C4. A consumption-period submission leads to a service call only if its period is
  in order (both dates entered, the start strictly before the end). Otherwise no
  service call is made and an error alert is shown; when the meter is selected and the
  value passes its check, which comes first, the alert is about the period: one of the
  two period messages, or the failure to convert a date that does not parse. A
  submission with a selected meter, a value that passes and a period in order is sent.
\<close>

theorem consumption_period_validation:
  assumes "entryType f = Some ''consumption''"
  shows "(fst (handleAddReading hs f p) \<noteq> [] \<longrightarrow> period_ok f) \<and>
         (\<not> period_ok f \<longrightarrow>
            fst (handleAddReading hs f p) = [] \<and> shows_error (snd (handleAddReading hs f p))) \<and>
         (\<not> period_ok f \<and> js_truthy (p_selectedMeter p) \<and>
          \<not> js_not (f_consumption f) \<and> \<not> js_lt0 (f_consumption f) \<longrightarrow>
            shown_message (snd (handleAddReading hs f p)) \<in>
              {''Please specify both period start and end dates'',
               ''Period start must be before period end'',
               ''Failed to add reading: Invalid time value''}) \<and>
         (period_ok f \<and> js_truthy (p_selectedMeter p) \<and>
          \<not> js_not (f_consumption f) \<and> \<not> js_lt0 (f_consumption f) \<longrightarrow>
            (\<exists>sel ps pe. p_selectedMeter p = Some sel \<and> f_period_start f = Date ps \<and>
               f_period_end f = Date pe \<and> ps < pe \<and>
               fst (handleAddReading hs f p) =
                 [add_consumption_period sel (f_consumption f) ps pe (js_or (f_notes f) [])]))"
proof (intro conjI impI)
  assume "fst (handleAddReading hs f p) \<noteq> []"
  with consumption_rejected [OF assms] show "period_ok f" by blast
next
  assume "\<not> period_ok f"
  with consumption_rejected [OF assms]
  show "fst (handleAddReading hs f p) = []" "shows_error (snd (handleAddReading hs f p))"
    by blast+
next
  assume "\<not> period_ok f \<and> js_truthy (p_selectedMeter p) \<and>
          \<not> js_not (f_consumption f) \<and> \<not> js_lt0 (f_consumption f)"
  with consumption_period_message [OF assms]
  show "shown_message (snd (handleAddReading hs f p)) \<in>
              {''Please specify both period start and end dates'',
               ''Period start must be before period end'',
               ''Failed to add reading: Invalid time value''}"
    by blast
next
  assume a: "period_ok f \<and> js_truthy (p_selectedMeter p) \<and>
          \<not> js_not (f_consumption f) \<and> \<not> js_lt0 (f_consumption f)"
  then obtain ps pe where d: "f_period_start f = Date ps" "f_period_end f = Date pe" "ps < pe"
    by (auto simp: period_ok_iff)
  from a obtain sel where sel: "p_selectedMeter p = Some sel" "sel \<noteq> []"
    by (auto simp: js_truthy_def split: option.splits)
  from a have v: "\<not> js_not (f_consumption f)" "\<not> js_lt0 (f_consumption f)" by simp_all
  from consumption_accepted [OF assms d sel v] d sel
  show "\<exists>sel ps pe. p_selectedMeter p = Some sel \<and> f_period_start f = Date ps \<and>
               f_period_end f = Date pe \<and> ps < pe \<and>
               fst (handleAddReading hs f p) =
                 [add_consumption_period sel (f_consumption f) ps pe (js_or (f_notes f) [])]"
    by blast
qed

text \<open>
  The theorem at a form whose period ends before it starts: no call, and the alert
  says so.
\<close>

theorem consumption_period_validation_witness:
  "entryType (consumption_form (Num 210) (Date 2000) (Date 1000)) = Some ''consumption'' \<and>
   \<not> period_ok (consumption_form (Num 210) (Date 2000) (Date 1000)) \<and>
   fst (handleAddReading (hass_ex call_b_empty)
          (consumption_form (Num 210) (Date 2000) (Date 1000)) panel_a) = [] \<and>
   shows_error (snd (handleAddReading (hass_ex call_b_empty)
          (consumption_form (Num 210) (Date 2000) (Date 1000)) panel_a)) \<and>
   shown_message (snd (handleAddReading (hass_ex call_b_empty)
          (consumption_form (Num 210) (Date 2000) (Date 1000)) panel_a)) =
     ''Period start must be before period end''"
proof -
  have e: "entryType (consumption_form (Num 210) (Date 2000) (Date 1000)) = Some ''consumption''"
    by (simp add: consumption_form_def)
  have n: "\<not> period_ok (consumption_form (Num 210) (Date 2000) (Date 1000))"
    by (simp add: period_ok_def consumption_form_def)
  have m: "shown_message (snd (handleAddReading (hass_ex call_b_empty)
          (consumption_form (Num 210) (Date 2000) (Date 1000)) panel_a)) =
     ''Period start must be before period end''"
    by (simp add: handleAddReading_def consumption_form_def panel_a_def panel_ex_def
          js_truthy_def shown_message_showAlert)
  from consumption_period_validation [OF e, of "hass_ex call_b_empty" panel_a] n
  have "fst (handleAddReading (hass_ex call_b_empty)
          (consumption_form (Num 210) (Date 2000) (Date 1000)) panel_a) = [] \<and>
   shows_error (snd (handleAddReading (hass_ex call_b_empty)
          (consumption_form (Num 210) (Date 2000) (Date 1000)) panel_a))"
    by blast
  with e n m show ?thesis by blast
qed

section \<open>Properties of the backend as the spec describes it\<close>

subsection \<open>The Conversion Engine\<close>

lemma accumulate_intervals:
  "\<forall>r \<in> set rs. is_interval (rd_when r) \<Longrightarrow>
     snd (accumulate pol seen running rs) = [] \<and>
     length (fst (accumulate pol seen running rs)) = length rs \<and>
     (\<forall>i < length rs.
        fst (fst (accumulate pol seen running rs) ! i) = anchor (rs ! i) \<and>
        snd (fst (accumulate pol seen running rs) ! i) =
          (if i = 0 then running else snd (fst (accumulate pol seen running rs) ! (i - 1)))
            + rd_value (rs ! i))"
proof (induction rs arbitrary: seen running)
  case Nil
  then show ?case by simp
next
  case (Cons r rs)
  from Cons.prems obtain ps pe where w: "rd_when r = Over ps pe"
    by (cases "rd_when r") auto
  let ?run = "running + rd_value r"
  let ?rest = "accumulate pol True ?run rs"
  have step: "accumulate pol seen running (r # rs) = ((pe, ?run) # fst ?rest, snd ?rest)"
    using w by (simp add: Let_def split: prod.splits)
  from Cons.prems have "\<forall>r \<in> set rs. is_interval (rd_when r)" by simp
  from Cons.IH [OF this, of True ?run]
  have e: "snd ?rest = []" and l: "length (fst ?rest) = length rs"
    and t: "\<forall>i < length rs.
        fst (fst ?rest ! i) = anchor (rs ! i) \<and>
        snd (fst ?rest ! i) = (if i = 0 then ?run else snd (fst ?rest ! (i - 1))) + rd_value (rs ! i)"
    by simp_all
  have "\<forall>i < length (r # rs).
        fst (((pe, ?run) # fst ?rest) ! i) = anchor ((r # rs) ! i) \<and>
        snd (((pe, ?run) # fst ?rest) ! i) =
          (if i = 0 then running else snd (((pe, ?run) # fst ?rest) ! (i - 1)))
            + rd_value ((r # rs) ! i)"
  proof (intro allI impI)
    fix i assume i: "i < length (r # rs)"
    show "fst (((pe, ?run) # fst ?rest) ! i) = anchor ((r # rs) ! i) \<and>
        snd (((pe, ?run) # fst ?rest) ! i) =
          (if i = 0 then running else snd (((pe, ?run) # fst ?rest) ! (i - 1)))
            + rd_value ((r # rs) ! i)"
    proof (cases i)
      case 0
      with w show ?thesis by (simp add: anchor_def)
    next
      case (Suc j)
      with i have j: "j < length rs" by simp
      with t have "fst (fst ?rest ! j) = anchor (rs ! j)"
        and "snd (fst ?rest ! j) = (if j = 0 then ?run else snd (fst ?rest ! (j - 1))) + rd_value (rs ! j)"
        by simp_all
      with Suc show ?thesis by (cases j) simp_all
    qed
  qed
  with e l show ?case unfolding step by simp
qed

text \<open>
  C1. For an ordered sequence of interval readings of one meter and any initial
  offset, the Conversion Engine reports no error and gives one point per reading: the
  point is dated at the reading's period end, and its total is the previous running
  total (the initial offset at the start) plus the reading's value. In particular,
  with offset 0 and two interval readings of values 100 and 50 whose periods end at
  \<open>T1 < T2\<close>, the output is \<open>[(T1, 100), (T2, 150)]\<close>. This holds for either policy
  for point readings.
\<close>

theorem conversion_interval_readings:
  "((\<forall>r \<in> set rs. is_interval (rd_when r)) \<and> sorted (map anchor rs) \<longrightarrow>
      snd (convert pol initial_offset rs) = [] \<and>
      running_totals initial_offset rs (fst (convert pol initial_offset rs))) \<and>
   (rd_when r1 = Over s1 T1 \<and> rd_value r1 = 100 \<and>
    rd_when r2 = Over s2 T2 \<and> rd_value r2 = 50 \<and> T1 < T2 \<longrightarrow>
      convert pol 0 [r1, r2] = ([(T1, 100), (T2, 150)], []))"
proof (intro conjI impI)
  assume a: "(\<forall>r \<in> set rs. is_interval (rd_when r)) \<and> sorted (map anchor rs)"
  then have "sort_key anchor rs = rs" by (simp add: sort_key_id_if_sorted)
  then have c: "convert pol initial_offset rs = accumulate pol False initial_offset rs"
    by (simp add: convert_def)
  from a have "\<forall>r \<in> set rs. is_interval (rd_when r)" by simp
  from accumulate_intervals [OF this, of pol False initial_offset]
  show "snd (convert pol initial_offset rs) = []"
    and "running_totals initial_offset rs (fst (convert pol initial_offset rs))"
    unfolding c running_totals_def by simp_all
next
  assume a: "rd_when r1 = Over s1 T1 \<and> rd_value r1 = 100 \<and>
    rd_when r2 = Over s2 T2 \<and> rd_value r2 = 50 \<and> T1 < T2"
  then have "sorted (map anchor [r1, r2])" by (simp add: anchor_def)
  then have "sort_key anchor [r1, r2] = [r1, r2]" by (rule sort_key_id_if_sorted)
  with a show "convert pol 0 [r1, r2] = ([(T1, 100), (T2, 150)], [])"
    by (simp add: convert_def)
qed

text \<open>The theorem at two readings of values 100 and 50, with periods ending at 1000 and 2000.\<close>

theorem conversion_interval_readings_witness:
  "convert Reject 0 [Reading_ex 0 (Over 0 1000) 100, Reading_ex 2 (Over 1000 2000) 50] =
     ([(1000, 100), (2000, 150)], []) \<and>
   running_totals 0 [Reading_ex 0 (Over 0 1000) 100, Reading_ex 2 (Over 1000 2000) 50]
     [(1000, 100), (2000, 150)]"
proof -
  let ?rs = "[Reading_ex 0 (Over 0 1000) 100, Reading_ex 2 (Over 1000 2000) 50]"
  have h1: "(\<forall>r \<in> set ?rs. is_interval (rd_when r)) \<and> sorted (map anchor ?rs)"
    by (simp add: Reading_ex_def anchor_def)
  have h2: "rd_when (Reading_ex 0 (Over 0 1000) 100) = Over 0 1000 \<and>
      rd_value (Reading_ex 0 (Over 0 1000) 100) = 100 \<and>
      rd_when (Reading_ex 2 (Over 1000 2000) 50) = Over 1000 2000 \<and>
      rd_value (Reading_ex 2 (Over 1000 2000) 50) = 50 \<and> (1000::int) < 2000"
    by (simp add: Reading_ex_def)
  note inst = conversion_interval_readings
    [of ?rs Reject 0 "Reading_ex 0 (Over 0 1000) 100" 0 1000
       "Reading_ex 2 (Over 1000 2000) 50" 1000 2000]
  from inst h2 have c: "convert Reject 0 ?rs = ([(1000, 100), (2000, 150)], [])" by blast
  from inst h1 have "running_totals 0 ?rs (fst (convert Reject 0 ?rs))" by blast
  with c show ?thesis by simp
qed

subsection \<open>The History Rebuilder\<close>

lemma rebuild_store: "bk_store (snd (rebuild pol ok m b)) = bk_store b"
  by (simp add: rebuild_def split: prod.splits)

lemma rebuild_offset: "bk_initial_offset (snd (rebuild pol ok m b)) = bk_initial_offset b"
  by (simp add: rebuild_def split: prod.splits)

lemma rebuild_series_rebuild:
  "rebuild_series pol m (snd (rebuild pol ok m' b)) = rebuild_series pol m b"
  by (simp add: rebuild_series_def rebuild_store rebuild_offset)

lemma rebuild_published:
  "bk_published (snd (rebuild pol True m b)) m = Some (rebuild_series pol m b)"
  by (simp add: rebuild_def rebuild_series_def split: prod.splits)

lemma rebuild_again:
  "rebuild pol True m (snd (rebuild pol True m b)) = rebuild pol True m b"
  by (simp add: rebuild_def split: prod.splits)

lemma list_readings_ex:
  "list_readings (store_ex [Reading_ex 0 (Over 0 1000) 100, Reading_ex 2 (Over 1000 2000) 50])
     ''sensor.a'' = [Reading_ex 0 (Over 0 1000) 100, Reading_ex 2 (Over 1000 2000) 50]"
  by (simp add: list_readings_def store_ex_def Reading_ex_def anchor_def)

lemma rebuild_series_ex:
  "rebuild_series Reject ''sensor.a''
     (backend_ex [Reading_ex 0 (Over 0 1000) 100, Reading_ex 2 (Over 1000 2000) 50]) =
     [(1000, 100), (2000, 150)]"
proof -
  have "convert Reject 0 [Reading_ex 0 (Over 0 1000) 100, Reading_ex 2 (Over 1000 2000) 50] =
     ([(1000, 100), (2000, 150)], [])"
    by (simp add: convert_def Reading_ex_def anchor_def)
  then show ?thesis
    by (simp add: rebuild_series_def backend_ex_def list_readings_ex)
qed

text \<open>
  C6. Two rebuilds of a meter in a row, with no change of the store between them: the
  second hands the same series to the publisher as the first, since a rebuild leaves
  the store and the configuration alone. When the publisher accepts both, the series
  published after either is that complete series, the two results are equal, and the
  second rebuild changes nothing.
\<close>

theorem rebuild_idempotent:
  assumes first: "rebuild pol ok1 m b = (res1, b1)"
    and second: "rebuild pol ok2 m b1 = (res2, b2)"
  shows "rebuild_series pol m b1 = rebuild_series pol m b \<and>
         bk_store b2 = bk_store b \<and>
         (ok1 \<and> ok2 \<longrightarrow>
            bk_published b1 m = Some (rebuild_series pol m b) \<and>
            bk_published b2 m = Some (rebuild_series pol m b) \<and>
            res2 = res1 \<and> b2 = b1)"
proof -
  from first have b1: "b1 = snd (rebuild pol ok1 m b)" by simp
  from second have b2: "b2 = snd (rebuild pol ok2 m b1)" by simp
  have s: "rebuild_series pol m b1 = rebuild_series pol m b"
    unfolding b1 by (rule rebuild_series_rebuild)
  have st: "bk_store b2 = bk_store b"
    unfolding b2 b1 by (simp add: rebuild_store)
  have "ok1 \<and> ok2 \<longrightarrow>
            bk_published b1 m = Some (rebuild_series pol m b) \<and>
            bk_published b2 m = Some (rebuild_series pol m b) \<and>
            res2 = res1 \<and> b2 = b1"
  proof
    assume ok: "ok1 \<and> ok2"
    with first second b1 have again: "(res2, b2) = (res1, b1)"
      using rebuild_again [of pol m b] by simp
    from ok b1 have p1: "bk_published b1 m = Some (rebuild_series pol m b)"
      by (simp add: rebuild_published)
    with again show "bk_published b1 m = Some (rebuild_series pol m b) \<and>
            bk_published b2 m = Some (rebuild_series pol m b) \<and>
            res2 = res1 \<and> b2 = b1"
      by simp
  qed
  with s st show ?thesis by blast
qed

text \<open>The theorem at a backend with two interval readings of meter \<open>sensor.a\<close>.\<close>

theorem rebuild_idempotent_witness:
  "rebuild Reject True ''sensor.a''
     (snd (rebuild Reject True ''sensor.a''
        (backend_ex [Reading_ex 0 (Over 0 1000) 100, Reading_ex 2 (Over 1000 2000) 50]))) =
   rebuild Reject True ''sensor.a''
     (backend_ex [Reading_ex 0 (Over 0 1000) 100, Reading_ex 2 (Over 1000 2000) 50]) \<and>
   bk_published
     (snd (rebuild Reject True ''sensor.a''
        (backend_ex [Reading_ex 0 (Over 0 1000) 100, Reading_ex 2 (Over 1000 2000) 50])))
     ''sensor.a'' = Some [(1000, 100), (2000, 150)]"
proof -
  let ?b = "backend_ex [Reading_ex 0 (Over 0 1000) 100, Reading_ex 2 (Over 1000 2000) 50]"
  let ?one = "rebuild Reject True ''sensor.a'' ?b"
  let ?two = "rebuild Reject True ''sensor.a'' (snd ?one)"
  have first: "?one = (fst ?one, snd ?one)" by simp
  have second: "?two = (fst ?two, snd ?two)" by simp
  from rebuild_idempotent [OF first second]
  have "bk_published (snd ?one) ''sensor.a'' = Some (rebuild_series Reject ''sensor.a'' ?b)"
    and "fst ?two = fst ?one" and "snd ?two = snd ?one"
    by simp_all
  then show ?thesis by (simp add: rebuild_series_ex prod_eq_iff)
qed

subsection \<open>The Validation Layer and the Reading Store\<close>

lemma validate_duplicate:
  assumes "input_anchor now inp = Some a" and "a \<in> set (map anchor existing)"
  shows "\<exists>e. validate now existing inp = Inl e"
    and "check_value (in_value inp) = Inr v \<Longrightarrow> check_when now inp = Inr w \<Longrightarrow>
           validate now existing inp = Inl DuplicateAnchor"
proof -
  have w: "anchor_of w = a" if "check_when now inp = Inr w" for w
    using that assms(1)
    by (auto simp: check_when_def input_anchor_def split: kind.splits option.splits if_splits)
  show "\<exists>e. validate now existing inp = Inl e"
    using w assms(2)
    by (auto simp: validate_def check_unique_def split: sum.splits)
  show "check_value (in_value inp) = Inr v \<Longrightarrow> check_when now inp = Inr w \<Longrightarrow>
           validate now existing inp = Inl DuplicateAnchor"
    using w assms(2) by (simp add: validate_def check_unique_def)
qed

lemma anchor_list_readings:
  "r \<in> set (st_readings s) \<Longrightarrow> rd_meter_id r = m \<Longrightarrow> anchor r \<in> set (map anchor (list_readings s m))"
  by (simp add: list_readings_def)

text \<open>
  C8. A reading whose anchor instant (a point's timestamp or an interval's period end)
  is the anchor instant of an existing reading of the same meter is rejected, and the
  store stays as it was: the existing reading is not overwritten. The rejection reason
  is \<open>DuplicateAnchor\<close> whenever the reading passes the checks of its value and of its
  period, which come before the check of the anchor.
\<close>

theorem duplicate_anchor_rejected:
  assumes "input_anchor now inp = Some a"
    and "existing \<in> set (st_readings s)"
    and "rd_meter_id existing = m"
    and "anchor existing = a"
  shows "(\<exists>e. fst (store_add now m inp s) = Inl e) \<and>
         snd (store_add now m inp s) = s \<and>
         ((\<exists>v. check_value (in_value inp) = Inr v) \<and> (\<exists>w. check_when now inp = Inr w) \<longrightarrow>
            fst (store_add now m inp s) = Inl DuplicateAnchor)"
proof -
  from assms have dup: "a \<in> set (map anchor (list_readings s m))"
    using anchor_list_readings by blast
  from validate_duplicate(1) [OF assms(1) dup]
  obtain e where e: "validate now (list_readings s m) inp = Inl e" by blast
  then have r: "store_add now m inp s = (Inl e, s)" by (simp add: store_add_def)
  have "(\<exists>v. check_value (in_value inp) = Inr v) \<and> (\<exists>w. check_when now inp = Inr w) \<longrightarrow>
            fst (store_add now m inp s) = Inl DuplicateAnchor"
  proof
    assume "(\<exists>v. check_value (in_value inp) = Inr v) \<and> (\<exists>w. check_when now inp = Inr w)"
    then obtain v w where "check_value (in_value inp) = Inr v" "check_when now inp = Inr w"
      by blast
    from validate_duplicate(2) [OF assms(1) dup this] e r
    show "fst (store_add now m inp s) = Inl DuplicateAnchor" by simp
  qed
  with r show ?thesis by simp
qed

text \<open>
  The theorem at a point reading dated at the period end of the one stored reading.
\<close>

theorem duplicate_anchor_rejected_witness:
  "input_anchor 5000 (point_input (Num 200) 1000) = Some 1000 \<and>
   anchor (Reading_ex 0 (Over 0 1000) 100) = 1000 \<and>
   store_add 5000 ''sensor.a'' (point_input (Num 200) 1000)
     (store_ex [Reading_ex 0 (Over 0 1000) 100]) =
     (Inl DuplicateAnchor, store_ex [Reading_ex 0 (Over 0 1000) 100])"
proof -
  let ?s = "store_ex [Reading_ex 0 (Over 0 1000) 100]"
  let ?inp = "point_input (Num 200) 1000"
  have 1: "input_anchor 5000 ?inp = Some 1000"
    by (simp add: input_anchor_def point_input_def)
  have 2: "Reading_ex 0 (Over 0 1000) 100 \<in> set (st_readings ?s)"
    by (simp add: store_ex_def)
  have 3: "rd_meter_id (Reading_ex 0 (Over 0 1000) 100) = ''sensor.a''"
    by (simp add: Reading_ex_def)
  have 4: "anchor (Reading_ex 0 (Over 0 1000) 100) = 1000"
    by (simp add: anchor_def Reading_ex_def)
  have 5: "(\<exists>v. check_value (in_value ?inp) = Inr v) \<and> (\<exists>w. check_when 5000 ?inp = Inr w)"
    by (simp add: point_input_def check_when_def)
  from duplicate_anchor_rejected [OF 1 2 3 4] 5
  have "fst (store_add 5000 ''sensor.a'' ?inp ?s) = Inl DuplicateAnchor"
    and "snd (store_add 5000 ''sensor.a'' ?inp ?s) = ?s"
    by blast+
  then have "store_add 5000 ''sensor.a'' ?inp ?s = (Inl DuplicateAnchor, ?s)"
    by (simp add: prod_eq_iff)
  with 1 4 show ?thesis by blast
qed

subsection \<open>Adding a reading and reading it back\<close>















end
